theory Spec2Isabelle
  imports Complex_Main
begin

section \<open>Data model (src/types.ts)\<close>

text \<open>
  \<^verbatim>\<open>VocabularyItem\<close> of src/types.ts. Optional fields are options. The field names
  \<^verbatim>\<open>definition\<close> and \<^verbatim>\<open>context\<close> are Isabelle keywords and carry the suffix \<^verbatim>\<open>_v\<close>.
\<close>

record vocabulary_item =
  word :: string
  definition_v :: string
  pronunciation :: "string option"
  type :: "string option"
  translation :: string
  context_v :: "string option"
  cefr :: "string option"

section \<open>Saved words (src/App.tsx, PracticeView)\<close>

text \<open>
  The state \<^verbatim>\<open>savedWords\<close> is an array of items; every setter is a function of the
  previous array. \<^verbatim>\<open>===\<close> on two strings is equality of the strings.
\<close>

definition handleToggleSaveWord :: "vocabulary_item \<Rightarrow> vocabulary_item list \<Rightarrow> vocabulary_item list" where
  "handleToggleSaveWord w prev =
     (let exists = list_ex (\<lambda>x. word x = word w) prev
      in if exists then filter (\<lambda>x. word x \<noteq> word w) prev else prev @ [w])"

definition handleAddManualWord :: "vocabulary_item \<Rightarrow> vocabulary_item list \<Rightarrow> vocabulary_item list" where
  "handleAddManualWord w prev = w # prev"

definition handleRemoveSavedWord :: "string \<Rightarrow> vocabulary_item list \<Rightarrow> vocabulary_item list" where
  "handleRemoveSavedWord wordStr prev = filter (\<lambda>w. word w \<noteq> wordStr) prev"

definition isSaved :: "vocabulary_item list \<Rightarrow> vocabulary_item \<Rightarrow> bool" where
  "isSaved savedWords item = list_ex (\<lambda>w. word w = word item) savedWords"

section \<open>Flashcard review queue (src/components/VocabularyView.tsx)\<close>

datatype difficulty = HARD | GOOD | EASY

record session_stats =
  reviewed :: nat
  hard :: nat

record learn_state =
  studyQueue :: "vocabulary_item list"
  currentCardIndex :: nat
  sessionStats :: session_stats

definition isFinished :: "learn_state \<Rightarrow> bool" where
  "isFinished s = (currentCardIndex s \<ge> length (studyQueue s))"

text \<open>
  \<^verbatim>\<open>handleGrade\<close>. The three grade buttons are rendered only while \<^verbatim>\<open>isFinished\<close> is
  false, so the handler never runs with the index past the queue; the model returns
  \<open>None\<close> there instead of reading \<^verbatim>\<open>studyQueue[currentCardIndex]\<close> out of range.
  The functional state updates are applied in the order the handler issues them.
\<close>

definition handleGrade :: "difficulty \<Rightarrow> learn_state \<Rightarrow> learn_state option" where
  "handleGrade d s =
     (if isFinished s then None
      else
        let currentCard = studyQueue s ! currentCardIndex s;
            s1 = s\<lparr>sessionStats := (sessionStats s)\<lparr>reviewed := reviewed (sessionStats s) + 1\<rparr>\<rparr>
        in if d = HARD then
             Some (s1\<lparr>studyQueue := studyQueue s1 @ [currentCard],
                      sessionStats := (sessionStats s1)\<lparr>hard := hard (sessionStats s1) + 1\<rparr>,
                      currentCardIndex := currentCardIndex s1 + 1\<rparr>)
           else
             Some (s1\<lparr>currentCardIndex := currentCardIndex s1 + 1\<rparr>))"

text \<open>A review session: the learner's grades, applied one click after another.\<close>

fun grade_all :: "difficulty list \<Rightarrow> learn_state \<Rightarrow> learn_state option" where
  "grade_all [] s = Some s"
| "grade_all (d # ds) s =
     (case handleGrade d s of None \<Rightarrow> None | Some s' \<Rightarrow> grade_all ds s')"

text \<open>The cards shown to the learner, one per grading step.\<close>

fun served :: "difficulty list \<Rightarrow> learn_state \<Rightarrow> vocabulary_item list" where
  "served [] s = []"
| "served (d # ds) s =
     (case handleGrade d s of
        None \<Rightarrow> []
      | Some s' \<Rightarrow> (studyQueue s ! currentCardIndex s) # served ds s')"

text \<open>
  The state \<^verbatim>\<open>startLearning\<close> leaves behind once the queue has been chosen:
  index 0 and both counters reset.
\<close>

definition started :: "vocabulary_item list \<Rightarrow> learn_state" where
  "started q = \<lparr>studyQueue = q, currentCardIndex = 0,
                sessionStats = \<lparr>reviewed = 0, hard = 0\<rparr>\<rparr>"

section \<open>Strings as the browser computes on them\<close>

text \<open>
  A text is a \<open>string\<close> whose characters are the code units below 256 (Latin-1), the
  range the tokenizer's own character class \<^verbatim>\<open>[a-zA-Z\<close>\<open>\<dots>\<close>\<^verbatim>\<open>0-9'-]\<close> reaches up to
  \<^verbatim>\<open>U+00FF\<close>. On this range \<^verbatim>\<open>toLowerCase\<close> maps each character on its own: \<^verbatim>\<open>A-Z\<close>
  and \<^verbatim>\<open>U+00C0..U+00DE\<close> without the multiplication sign \<^verbatim>\<open>U+00D7\<close> move up by 32.
\<close>

definition toLowerCase_char :: "char \<Rightarrow> char" where
  "toLowerCase_char c =
     (let n = (of_char c :: nat)
      in if (65 \<le> n \<and> n \<le> 90) \<or> (192 \<le> n \<and> n \<le> 222 \<and> n \<noteq> 215)
         then char_of (n + 32) else c)"

definition toLowerCase :: "string \<Rightarrow> string" where
  "toLowerCase s = map toLowerCase_char s"

text \<open>White space of \<^verbatim>\<open>trim\<close> and \<^verbatim>\<open>\s\<close>: tab, line feed, vertical tab, form feed,
  carriage return, space and the no-break space.\<close>

definition is_space :: "char \<Rightarrow> bool" where
  "is_space c = (let n = (of_char c :: nat) in (9 \<le> n \<and> n \<le> 13) \<or> n = 32 \<or> n = 160)"

definition trim :: "string \<Rightarrow> string" where
  "trim s = rev (dropWhile is_space (rev (dropWhile is_space s)))"

text \<open>\<^verbatim>\<open>s.includes(t)\<close>: \<open>t\<close> occurs in \<open>s\<close> as a contiguous substring.\<close>

fun is_prefix_of :: "string \<Rightarrow> string \<Rightarrow> bool" where
  "is_prefix_of [] s = True"
| "is_prefix_of (c # t) [] = False"
| "is_prefix_of (c # t) (d # s) = (c = d \<and> is_prefix_of t s)"

fun includes_str :: "string \<Rightarrow> string \<Rightarrow> bool" where
  "includes_str [] t = (t = [])"
| "includes_str (c # s) t = (is_prefix_of t (c # s) \<or> includes_str s t)"


section \<open>Sentence context of a clicked token (InteractiveText.findSentence)\<close>

definition is_terminal :: "char \<Rightarrow> bool" where
  "is_terminal c = (c = CHR ''.'' \<or> c = CHR ''!'' \<or> c = CHR ''?'')"

text \<open>
  \<^verbatim>\<open>fullText.match(/[^.!?]+[.!?]+/g)\<close>. A match starts at the first character that is
  not a terminator, takes the whole run of such characters and then the whole run of
  terminators, of which there must be one: a run that reaches the end of the text
  matches nothing, from any of its positions. The list is empty where JavaScript
  gives \<^verbatim>\<open>null\<close>.
\<close>

function match_sentences :: "string \<Rightarrow> string list" where
  "match_sentences s =
     (let s1 = dropWhile is_terminal s;
          body = takeWhile (\<lambda>c. \<not> is_terminal c) s1;
          rest = dropWhile (\<lambda>c. \<not> is_terminal c) s1
      in if rest = [] then []
         else (body @ takeWhile is_terminal rest) # match_sentences (dropWhile is_terminal rest))"
  by pat_completeness auto
termination
proof (relation "measure length")
  show "wf (measure length)" by simp
next
  fix s s1 body rest :: string
  assume s1: "s1 = dropWhile is_terminal s"
    and rest: "rest = dropWhile (\<lambda>c. \<not> is_terminal c) s1"
    and ne: "rest \<noteq> []"
  from ne have "is_terminal (hd rest)"
    unfolding rest using hd_dropWhile by blast
  with ne have "length (dropWhile is_terminal rest) < length rest"
    by (cases rest) (simp_all add: length_dropWhile_le le_imp_less_Suc)
  also have "length rest \<le> length s"
    unfolding rest s1
    by (meson length_dropWhile_le order_trans)
  finally show "(dropWhile is_terminal rest, s) \<in> measure length"
    by simp
qed

text \<open>\<^verbatim>\<open>|| [fullText]\<close>: without a match the whole text is the one sentence.\<close>

definition sentences_of :: "string \<Rightarrow> string list" where
  "sentences_of fullText =
     (case match_sentences fullText of [] \<Rightarrow> [fullText] | m # ms \<Rightarrow> m # ms)"

text \<open>The \<^verbatim>\<open>for\<close> loop: the first sentence that includes the target, trimmed.\<close>

fun first_sentence_with :: "string list \<Rightarrow> string \<Rightarrow> string" where
  "first_sentence_with [] targetWord = []"
| "first_sentence_with (sentence # rest) targetWord =
     (if includes_str (toLowerCase sentence) (toLowerCase targetWord) then trim sentence
      else first_sentence_with rest targetWord)"

definition findSentence :: "string \<Rightarrow> string \<Rightarrow> string" where
  "findSentence fullText targetWord = first_sentence_with (sentences_of fullText) targetWord"

section \<open>Tokenizer and annotator (InteractiveText.renderTextSegment)\<close>

text \<open>
  \<^verbatim>\<open>vocabMap\<close>: the vocabulary keyed by the lower-cased word; \<^verbatim>\<open>forEach\<close> with
  \<^verbatim>\<open>map.set\<close> lets a later entry replace an earlier one with the same key.
\<close>

definition vocabMap :: "vocabulary_item list \<Rightarrow> (string \<rightharpoonup> vocabulary_item)" where
  "vocabMap vocabulary =
     foldl (\<lambda>m item. m(toLowerCase (word item) \<mapsto> item)) Map.empty vocabulary"
















section \<open>Calls to the AI collaborator (src/services/aiService.ts)\<close>

record token_usage =
  promptTokens :: nat
  responseTokens :: nat
  totalTokens :: nat

text \<open>
  What one \<^verbatim>\<open>fetch\<close> and the handling of its response come to, for a reply content
  of type \<open>'c\<close>:
  \<^item> \<open>Rejected msg\<close>: \<^verbatim>\<open>fetch\<close> rejects with an error of message \<open>msg\<close>;
  \<^item> \<open>Responded status errMsg body\<close>: a response with that status. \<open>errMsg\<close> is the
    message of the error thrown for a response that is not ok
    (\<^verbatim>\<open>errorData.error?.message || `API Error: ${response.statusText}`\<close>); \<open>body\<close> is what
    reading an ok response gives: \<open>Inl msg\<close> when \<^verbatim>\<open>response.json()\<close>, the access to
    \<^verbatim>\<open>data.choices[0].message.content\<close> or \<^verbatim>\<open>JSON.parse\<close> throws an error of message
    \<open>msg\<close>, \<open>Inr\<close> the parsed content and the usage otherwise.
\<close>

datatype 'c exchange =
    Rejected string
  | Responded nat string "string + 'c \<times> token_usage"

definition response_ok :: "nat \<Rightarrow> bool" where
  "response_ok status = (200 \<le> status \<and> status \<le> 299)"

datatype event = Fetch | Wait nat

datatype 'c verdict = Retry | Throw string | Return "'c \<times> token_usage"

text \<open>The \<^verbatim>\<open>try\<close> block of \<^verbatim>\<open>attempt\<close>, up to the recursive call.\<close>

definition try_block :: "'c exchange \<Rightarrow> nat \<Rightarrow> 'c verdict" where
  "try_block x retryCount =
     (case x of
        Rejected msg \<Rightarrow> Throw msg
      | Responded status errMsg body \<Rightarrow>
          if \<not> response_ok status then
            (if (status = 429 \<or> status \<ge> 500) \<and> retryCount > 0 then Retry
             else Throw errMsg)
          else (case body of Inl msg \<Rightarrow> Throw msg | Inr r \<Rightarrow> Return r))"

text \<open>The \<^verbatim>\<open>catch\<close> block, which receives every error thrown in the \<^verbatim>\<open>try\<close> block.\<close>

definition catch_block :: "string \<Rightarrow> nat \<Rightarrow> 'c verdict" where
  "catch_block message retryCount =
     (if retryCount > 0 \<and> (includes_str message ''fetch'' \<or> includes_str message ''network'')
      then Retry else Throw message)"

definition attempt_once :: "'c exchange \<Rightarrow> nat \<Rightarrow> 'c verdict" where
  "attempt_once x retryCount =
     (case try_block x retryCount of
        Throw message \<Rightarrow> catch_block message retryCount
      | v \<Rightarrow> v)"

text \<open>
  \<^verbatim>\<open>attempt(retryCount)\<close>: \<open>net k\<close> is the outcome of the \<open>k\<close>-th \<^verbatim>\<open>fetch\<close> of the call.
  A retry is \<^verbatim>\<open>await wait(2000); return attempt(retryCount - 1)\<close>; the promise is
  returned without \<^verbatim>\<open>await\<close>, so an error of the inner attempt does not come back to
  this \<^verbatim>\<open>catch\<close>. The result carries the trace of fetches and waits (milliseconds).
\<close>

function attempt :: "(nat \<Rightarrow> 'c exchange) \<Rightarrow> nat \<Rightarrow> nat \<Rightarrow> event list \<times> (string + 'c \<times> token_usage)" where
  "attempt net k retryCount =
     (case attempt_once (net k) retryCount of
        Retry \<Rightarrow> (let (evs, r) = attempt net (k + 1) (retryCount - 1)
                  in (Fetch # Wait 2000 # evs, r))
      | Throw message \<Rightarrow> ([Fetch], Inl message)
      | Return r \<Rightarrow> ([Fetch], Inr r))"
  by pat_completeness auto
termination
proof (relation "measure (\<lambda>(net, k, retryCount). retryCount)")
  show "wf (measure (\<lambda>(net :: nat \<Rightarrow> 'c exchange, k :: nat, retryCount :: nat). retryCount))"
    by simp
next
  fix net :: "nat \<Rightarrow> 'c exchange" and k retryCount :: nat
  assume "attempt_once (net k) retryCount = Retry"
  then have "0 < retryCount"
    by (auto simp: attempt_once_def try_block_def catch_block_def
             split: exchange.splits verdict.splits if_splits sum.splits)
  then show "((net, k + 1, retryCount - 1), (net, k, retryCount))
      \<in> measure (\<lambda>(net, k, retryCount). retryCount)"
    by simp
qed

text \<open>
  \<^verbatim>\<open>callDeepSeek\<close>: the key check, the attempts, and the outer \<^verbatim>\<open>catch\<close> that throws a
  new error with the same message, or the default one when the message is empty.
  \<^verbatim>\<open>retries\<close> has the default 3, which every caller uses.
\<close>

definition callDeepSeek ::
  "string option \<Rightarrow> (nat \<Rightarrow> 'c exchange) \<Rightarrow> nat \<Rightarrow> event list \<times> (string + 'c \<times> token_usage)" where
  "callDeepSeek apiKey net retries =
     (if apiKey = None \<or> apiKey = Some [] then
        ([], Inl ''Please enter your DeepSeek API Key in Settings.'')
      else
        (case attempt net 0 retries of
           (evs, Inl message) \<Rightarrow>
             (evs, Inl (if message = []
                        then ''Failed to connect to DeepSeek API. Please try again.''
                        else message))
         | (evs, Inr r) \<Rightarrow> (evs, Inr r)))"

definition default_retries :: nat where
  "default_retries = 3"

text \<open>\<^verbatim>\<open>analyzeCustomText\<close>: the content of the reply, with \<^verbatim>\<open>text\<close> set to the argument
  and the usage added. The field \<^verbatim>\<open>text\<close> is an Isabelle keyword and is \<open>text_v\<close>.\<close>

record content =
  title :: string
  text_v :: string
  vocabulary :: "vocabulary_item list"

record analysis = content +
  usage :: token_usage

definition analyzeCustomText ::
  "string option \<Rightarrow> (nat \<Rightarrow> content exchange) \<Rightarrow> string \<Rightarrow> string + analysis" where
  "analyzeCustomText apiKey net text =
     (case snd (callDeepSeek apiKey net default_retries) of
        Inl message \<Rightarrow> Inl message
      | Inr (c, u) \<Rightarrow>
          Inr \<lparr>title = title c, text_v = text, vocabulary = vocabulary c, usage = u\<rparr>)"

text \<open>\<^verbatim>\<open>lookupWordContext\<close>: the content of the reply with \<^verbatim>\<open>word\<close> set, and the usage.\<close>

definition lookupWordContext ::
  "string option \<Rightarrow> (nat \<Rightarrow> vocabulary_item exchange) \<Rightarrow> string \<Rightarrow> string \<Rightarrow>
   string + vocabulary_item \<times> token_usage" where
  "lookupWordContext apiKey net w fullContext =
     (case snd (callDeepSeek apiKey net default_retries) of
        Inl message \<Rightarrow> Inl message
      | Inr (c, u) \<Rightarrow> Inr (c\<lparr>word := w\<rparr>, u))"

section \<open>Lookup dispatcher (InteractiveText.handleWordClick)\<close>

record reader_state =
  selectedWord :: "vocabulary_item option"
  loadingWord :: "string option"
  reportedUsage :: "token_usage list"

text \<open>\<^verbatim>\<open>clickedText.trim().replace(/[.,!?;:"()]+/g, '').toLowerCase()\<close>.\<close>

definition cleanText_of :: "string \<Rightarrow> string" where
  "cleanText_of clickedText =
     toLowerCase (filter (\<lambda>c. c \<notin> set (''.,!?;:()'' @ [CHR 0x22])) (trim clickedText))"

text \<open>The item shown when the lookup fails; its translation is the Vietnamese word
  for error, here in UTF-8.\<close>

definition fallback_item :: "string \<Rightarrow> string \<Rightarrow> vocabulary_item" where
  "fallback_item clickedText currentContext =
     \<lparr>word = clickedText,
      definition_v = ''Unable to translate. Check connection.'',
      pronunciation = None,
      type = Some ''Unknown'',
      translation = ''L'' @ [CHR 0xE1, CHR 0xBB, CHR 0x97] @ ''i'',
      context_v = Some currentContext,
      cefr = None\<rparr>"

text \<open>
  \<^verbatim>\<open>handleWordClick\<close>, from the click to the state once the lookup has settled.
  \<^verbatim>\<open>cached.context || currentContext\<close> keeps a context that is present and not empty.
  \<open>reportedUsage\<close> collects what is passed to \<^verbatim>\<open>onTokenUsage\<close>.
\<close>

definition handleWordClick ::
  "vocabulary_item list \<Rightarrow> string \<Rightarrow> string option \<Rightarrow> (nat \<Rightarrow> vocabulary_item exchange) \<Rightarrow>
   string \<Rightarrow> reader_state \<Rightarrow> reader_state" where
  "handleWordClick vocab text apiKey net clickedText s =
     (let cleanText = cleanText_of clickedText;
          currentContext = findSentence text clickedText
      in case vocabMap vocab cleanText of
           Some cached \<Rightarrow>
             s\<lparr>selectedWord :=
                 Some (cached\<lparr>context_v :=
                   Some (case context_v cached of
                           None \<Rightarrow> currentContext
                         | Some c \<Rightarrow> if c = [] then currentContext else c)\<rparr>)\<rparr>
         | None \<Rightarrow>
             (case lookupWordContext apiKey net clickedText text of
                Inr (result, u) \<Rightarrow>
                  s\<lparr>selectedWord := Some (result\<lparr>context_v := Some currentContext\<rparr>),
                    loadingWord := None,
                    reportedUsage := reportedUsage s @ [u]\<rparr>
              | Inl message \<Rightarrow>
                  s\<lparr>selectedWord := Some (fallback_item clickedText currentContext),
                    loadingWord := None\<rparr>))"

section \<open>Start of a review session (VocabularyView.startLearning)\<close>

text \<open>
  \<^verbatim>\<open>[...filteredWords].sort(() => Math.random() - 0.5)\<close>. The sort is the engine's; the
  source fixes the comparator, which ignores both of its arguments. A run of the
  engine's sort on an array is a finite tree of comparator calls, which branches on
  the sign of the comparator's result (negative, zero, positive) and ends with the
  array it returns.
\<close>

datatype 'a sort_run =
    Sorted "'a list"
  | Compare "'a sort_run" "'a sort_run" "'a sort_run"

text \<open>\<open>rnd k\<close> is the value of the \<open>k\<close>-th call of \<^verbatim>\<open>Math.random()\<close>.\<close>

fun run_sort :: "'a sort_run \<Rightarrow> (nat \<Rightarrow> rat) \<Rightarrow> nat \<Rightarrow> 'a list" where
  "run_sort (Sorted xs) rnd k = xs"
| "run_sort (Compare neg zero pos) rnd k =
     (let c = rnd k - 1 / 2
      in if c < 0 then run_sort neg rnd (k + 1)
         else if c = 0 then run_sort zero rnd (k + 1)
         else run_sort pos rnd (k + 1))"

datatype view_mode = LIST | LEARN

record view_state =
  mode :: view_mode
  learn :: learn_state

definition startLearning ::
  "(vocabulary_item list \<Rightarrow> vocabulary_item sort_run) \<Rightarrow> (nat \<Rightarrow> rat) \<Rightarrow>
   vocabulary_item list \<Rightarrow> view_state \<Rightarrow> view_state" where
  "startLearning engine_sort rnd filteredWords s =
     (if length filteredWords = 0 then s
      else let shuffled = run_sort (engine_sort filteredWords) rnd 0
           in \<lparr>mode = LEARN, learn = started shuffled\<rparr>)"

text \<open>
  The probability that a run ends with the array \<open>q\<close>, when the calls of
  \<^verbatim>\<open>Math.random()\<close> are independent and give a value below, equal to and above
  \<open>1/2\<close> with the probabilities \<open>pn\<close>, \<open>pz\<close> and \<open>pp\<close>.
\<close>

fun outcome_prob :: "rat \<Rightarrow> rat \<Rightarrow> rat \<Rightarrow> 'a sort_run \<Rightarrow> 'a list \<Rightarrow> rat" where
  "outcome_prob pn pz pp (Sorted xs) q = (if xs = q then 1 else 0)"
| "outcome_prob pn pz pp (Compare neg zero pos) q =
     pn * outcome_prob pn pz pp neg q
   + pz * outcome_prob pn pz pp zero q
   + pp * outcome_prob pn pz pp pos q"

section \<open>Items used in the examples\<close>

definition item :: "string \<Rightarrow> vocabulary_item" where
  "item w = \<lparr>word = w, definition_v = [], pronunciation = None, type = None,
            translation = [], context_v = None, cefr = None\<rparr>"

section \<open>Notions used to state the properties\<close>

text \<open>
  The failures the retry logic is written for: a rejected \<^verbatim>\<open>fetch\<close> whose message
  mentions \<^verbatim>\<open>fetch\<close> or \<^verbatim>\<open>network\<close>, and a response with status 429 or 5xx.
\<close>

definition transient :: "'c exchange \<Rightarrow> bool" where
  "transient x =
     (case x of
        Rejected msg \<Rightarrow> includes_str msg ''fetch'' \<or> includes_str msg ''network''
      | Responded status errMsg body \<Rightarrow> status = 429 \<or> status \<ge> 500)"

definition failure_message :: "'c exchange \<Rightarrow> string" where
  "failure_message x =
     (case x of
        Rejected msg \<Rightarrow> msg
      | Responded status errMsg body \<Rightarrow>
          if \<not> response_ok status then errMsg
          else (case body of Inl msg \<Rightarrow> msg | Inr r \<Rightarrow> []))"

definition permanent :: "'c exchange \<Rightarrow> bool" where
  "permanent x =
     (\<not> includes_str (failure_message x) ''fetch''
      \<and> \<not> includes_str (failure_message x) ''network''
      \<and> (case x of
            Rejected msg \<Rightarrow> True
          | Responded status errMsg body \<Rightarrow>
              if response_ok status then (case body of Inl msg \<Rightarrow> True | Inr r \<Rightarrow> False)
              else status \<noteq> 429 \<and> status < 500))"

definition shown_message :: "string \<Rightarrow> string" where
  "shown_message message =
     (if message = [] then ''Failed to connect to DeepSeek API. Please try again.'' else message)"

definition retried :: "nat \<Rightarrow> event list" where
  "retried m = concat (replicate m [Fetch, Wait 2000])"

text \<open>An empty usage record and a network that fails twice before it answers.\<close>

definition usage0 :: token_usage where
  "usage0 = \<lparr>promptTokens = 0, responseTokens = 0, totalTokens = 0\<rparr>"

definition flaky_net :: "nat \<Rightarrow> unit exchange" where
  "flaky_net k =
     (if k = 0 then Rejected ''Failed to fetch''
      else if k = 1 then Responded 503 ''busy'' (Inl [])
      else Responded 200 [] (Inr ((), usage0)))"

text \<open>
  One engine among all: insertion sort of a three-element array, as the tree of its
  comparator calls. The first call compares the first two elements and swaps them on
  a positive result; the next calls move the third element to the left while the
  result is positive.
\<close>

fun insertion_sort3 :: "'a list \<Rightarrow> 'a sort_run" where
  "insertion_sort3 [x, y, z] =
     (let place = (\<lambda>p q. Compare (Sorted [p, q, z]) (Sorted [p, q, z])
                            (Compare (Sorted [p, z, q]) (Sorted [p, z, q]) (Sorted [z, p, q])))
      in Compare (place x y) (place x y) (place y x))"
| "insertion_sort3 xs = Sorted xs"



text \<open>
  The sentence context as the specification words it, for comparison with
  \<open>findSentence\<close>: the text is split after each run of terminators, every piece keeps
  its terminators, and the piece after the last terminator is a sentence too.
\<close>

definition claimed_sentences :: "string \<Rightarrow> string list" where
  "claimed_sentences fullText =
     (let tail = rev (takeWhile (\<lambda>c. \<not> is_terminal c) (rev fullText))
      in match_sentences fullText @ (if tail = [] then [] else [tail]))"

definition claimed_context :: "string \<Rightarrow> string \<Rightarrow> string" where
  "claimed_context fullText targetWord =
     first_sentence_with (claimed_sentences fullText) targetWord"

section \<open>Saved words: identity of an item\<close>

lemma toggle_absent:
  "\<not> list_ex (\<lambda>x. word x = word w) S \<Longrightarrow> handleToggleSaveWord w S = S @ [w]"
  by (simp add: handleToggleSaveWord_def)

lemma toggle_present:
  "list_ex (\<lambda>x. word x = word w) S \<Longrightarrow>
   handleToggleSaveWord w S = filter (\<lambda>x. word x \<noteq> word w) S"
  by (simp add: handleToggleSaveWord_def)

lemma filter_absent:
  "\<not> list_ex (\<lambda>x. word x = word w) S \<Longrightarrow> filter (\<lambda>x. word x \<noteq> word w) S = S"
  by (induction S) auto

text \<open>
  C10. If no entry of the saved list \<open>S\<close> has the word string of \<open>w\<close>, toggling \<open>w\<close>
  twice gives \<open>S\<close> back: the first toggle appends \<open>w\<close>, the second removes exactly it.
\<close>

theorem toggle_twice_non_member:
  assumes "\<not> list_ex (\<lambda>x. word x = word w) S"
  shows "handleToggleSaveWord w S = S @ [w]
       \<and> handleToggleSaveWord w (handleToggleSaveWord w S) = S"
proof -
  have first: "handleToggleSaveWord w S = S @ [w]"
    using assms by (rule toggle_absent)
  have "list_ex (\<lambda>x. word x = word w) (S @ [w])"
    by (simp add: list_ex_iff)
  then have "handleToggleSaveWord w (S @ [w]) = filter (\<lambda>x. word x \<noteq> word w) (S @ [w])"
    by (rule toggle_present)
  also have "\<dots> = S"
    using assms by (simp add: filter_absent)
  finally show ?thesis
    using first by simp
qed

text \<open>The round trip on the list that holds \<open>dog\<close>, toggling \<open>cat\<close>.\<close>

theorem toggle_twice_non_member_witness:
  "\<not> list_ex (\<lambda>x. word x = word (item ''cat'')) [item ''dog'']
   \<and> handleToggleSaveWord (item ''cat'') [item ''dog''] = [item ''dog'', item ''cat'']
   \<and> handleToggleSaveWord (item ''cat'') (handleToggleSaveWord (item ''cat'') [item ''dog''])
       = [item ''dog'']"
proof -
  have h: "\<not> list_ex (\<lambda>x. word x = word (item ''cat'')) [item ''dog'']"
    by (simp add: item_def)
  note t = toggle_twice_non_member [OF h]
  from t have a: "handleToggleSaveWord (item ''cat'') [item ''dog''] = [item ''dog'', item ''cat'']"
    by simp
  from t have b: "handleToggleSaveWord (item ''cat'') (handleToggleSaveWord (item ''cat'') [item ''dog''])
      = [item ''dog'']"
    by (rule conjunct2)
  from h a b show ?thesis by (intro conjI)
qed

text \<open>
  C7, as the claim states it, fails: \<open>Cat\<close> and \<open>cat\<close> are equal ignoring case, but
  with \<open>cat\<close> saved, \<open>Cat\<close> is not saved, toggling \<open>Cat\<close> appends it, and removing \<open>Cat\<close>
  removes nothing.
\<close>

theorem saved_identity_case_counterexample:
  "toLowerCase (word (item ''Cat'')) = toLowerCase (word (item ''cat''))
   \<and> \<not> isSaved [item ''cat''] (item ''Cat'')
   \<and> handleToggleSaveWord (item ''Cat'') [item ''cat''] = [item ''cat'', item ''Cat'']
   \<and> handleRemoveSavedWord ''Cat'' [item ''cat''] = [item ''cat'']"
  by code_simp

text \<open>
  C7, amended. The three operations identify an item by its word string as it is
  written: \<open>isSaved\<close> holds exactly when an entry has the same word string; the toggle
  then removes the entries with that word string, after which the item is not saved,
  and otherwise appends the item; removal leaves no entry with the given word string
  and keeps every other entry.
\<close>

theorem saved_identity_exact:
  "(isSaved S i \<longleftrightarrow> (\<exists>x \<in> set S. word x = word i))
   \<and> ((\<exists>x \<in> set S. word x = word i) \<longrightarrow>
        handleToggleSaveWord i S = filter (\<lambda>x. word x \<noteq> word i) S
        \<and> \<not> isSaved (handleToggleSaveWord i S) i)
   \<and> (\<not> (\<exists>x \<in> set S. word x = word i) \<longrightarrow> handleToggleSaveWord i S = S @ [i])
   \<and> \<not> (\<exists>x \<in> set (handleRemoveSavedWord w S). word x = w)
   \<and> (\<forall>x \<in> set S. word x \<noteq> w \<longrightarrow> x \<in> set (handleRemoveSavedWord w S))"
  by (auto simp: isSaved_def handleToggleSaveWord_def handleRemoveSavedWord_def list_ex_iff)

theorem saved_identity_exact_witness:
  "(\<exists>x \<in> set [item ''cat'', item ''Cat'', item ''dog'']. word x = word (item ''cat''))
   \<and> isSaved [item ''cat'', item ''Cat'', item ''dog''] (item ''cat'')
   \<and> handleToggleSaveWord (item ''cat'') [item ''cat'', item ''Cat'', item ''dog'']
       = [item ''Cat'', item ''dog'']
   \<and> item ''Cat'' \<in> set (handleRemoveSavedWord ''cat'' [item ''cat'', item ''Cat'', item ''dog''])"
proof -
  let ?S = "[item ''cat'', item ''Cat'', item ''dog'']"
  have ex: "\<exists>x \<in> set ?S. word x = word (item ''cat'')" by simp
  have ne: "word (item ''Cat'') \<noteq> ''cat''" by (simp add: item_def)
  have mem: "item ''Cat'' \<in> set ?S" by simp
  note t = saved_identity_exact [of ?S "item ''cat''" "''cat''"]
  from t ex have a: "isSaved ?S (item ''cat'')" by blast
  from t ex have "handleToggleSaveWord (item ''cat'') ?S
      = filter (\<lambda>x. word x \<noteq> word (item ''cat'')) ?S" by blast
  then have b: "handleToggleSaveWord (item ''cat'') ?S = [item ''Cat'', item ''dog'']"
    by (simp add: item_def)
  from t ne mem have c: "item ''Cat'' \<in> set (handleRemoveSavedWord ''cat'' ?S)" by blast
  from ex a b c show ?thesis by (intro conjI)
qed

section \<open>The review queue\<close>

lemma handleGrade_pass:
  "d \<noteq> HARD \<Longrightarrow> i < length q \<Longrightarrow>
   handleGrade d \<lparr>studyQueue = q, currentCardIndex = i, sessionStats = \<lparr>reviewed = r, hard = h\<rparr>\<rparr>
   = Some \<lparr>studyQueue = q, currentCardIndex = Suc i, sessionStats = \<lparr>reviewed = Suc r, hard = h\<rparr>\<rparr>"
  by (simp add: handleGrade_def isFinished_def)

lemma handleGrade_hard:
  "i < length q \<Longrightarrow>
   handleGrade HARD \<lparr>studyQueue = q, currentCardIndex = i, sessionStats = \<lparr>reviewed = r, hard = h\<rparr>\<rparr>
   = Some \<lparr>studyQueue = q @ [q ! i], currentCardIndex = Suc i,
            sessionStats = \<lparr>reviewed = Suc r, hard = Suc h\<rparr>\<rparr>"
  by (simp add: handleGrade_def isFinished_def)

lemma grade_all_pass:
  "HARD \<notin> set gs \<Longrightarrow> i + length gs \<le> length q \<Longrightarrow>
   grade_all gs \<lparr>studyQueue = q, currentCardIndex = i, sessionStats = \<lparr>reviewed = r, hard = h\<rparr>\<rparr>
   = Some \<lparr>studyQueue = q, currentCardIndex = i + length gs,
            sessionStats = \<lparr>reviewed = r + length gs, hard = h\<rparr>\<rparr>"
proof (induction gs arbitrary: i r)
  case Nil
  then show ?case by simp
next
  case (Cons g gs)
  from Cons.prems have g: "g \<noteq> HARD" and i: "i < length q"
    and rest: "HARD \<notin> set gs" "Suc i + length gs \<le> length q"
    by auto
  show ?case
    using Cons.IH [OF rest, of "Suc r"] handleGrade_pass [OF g i, of r h] by simp
qed

lemma served_pass:
  "HARD \<notin> set gs \<Longrightarrow> i + length gs \<le> length q \<Longrightarrow>
   served gs \<lparr>studyQueue = q, currentCardIndex = i, sessionStats = \<lparr>reviewed = r, hard = h\<rparr>\<rparr>
   = take (length gs) (drop i q)"
proof (induction gs arbitrary: i r)
  case Nil
  then show ?case by simp
next
  case (Cons g gs)
  from Cons.prems have g: "g \<noteq> HARD" and i: "i < length q"
    and rest: "HARD \<notin> set gs" "Suc i + length gs \<le> length q"
    by auto
  have "drop i q = q ! i # drop (Suc i) q"
    using i by (simp add: Cons_nth_drop_Suc)
  then show ?case
    using Cons.IH [OF rest, of "Suc r"] handleGrade_pass [OF g i, of r h] by simp
qed

lemma isFinished_simp:
  "isFinished \<lparr>studyQueue = q, currentCardIndex = i, sessionStats = st\<rparr> = (length q \<le> i)"
  by (simp add: isFinished_def)

text \<open>
  C3. From the state \<^verbatim>\<open>startLearning\<close> leaves for a non-empty queue \<open>q\<close> of \<open>N\<close> cards,
  one grade per card, none of them HARD: the session ends with the queue \<open>q\<close> itself
  (length \<open>N\<close>), the index at \<open>N\<close>, so \<^verbatim>\<open>isFinished\<close>, \<open>reviewed = N\<close> and \<open>hard = 0\<close>; and
  after fewer than \<open>N\<close> of the grades it is not finished, so it takes exactly \<open>N\<close> steps.
\<close>

theorem all_pass_session:
  assumes "q \<noteq> []" and "length gs = length q" and "HARD \<notin> set gs"
  shows "grade_all gs (started q)
           = Some \<lparr>studyQueue = q, currentCardIndex = length q,
                   sessionStats = \<lparr>reviewed = length q, hard = 0\<rparr>\<rparr>
       \<and> isFinished \<lparr>studyQueue = q, currentCardIndex = length q,
                   sessionStats = \<lparr>reviewed = length q, hard = 0\<rparr>\<rparr>
       \<and> (\<forall>k < length q. \<exists>s'. grade_all (take k gs) (started q) = Some s'
              \<and> \<not> isFinished s')"
proof -
  have final: "grade_all gs (started q)
           = Some \<lparr>studyQueue = q, currentCardIndex = length q,
                   sessionStats = \<lparr>reviewed = length q, hard = 0\<rparr>\<rparr>"
    using grade_all_pass [of gs 0 q 0 0] assms by (simp add: started_def)
  have early: "\<exists>s'. grade_all (take k gs) (started q) = Some s' \<and> \<not> isFinished s'"
    if "k < length q" for k
  proof -
    have "HARD \<notin> set (take k gs)"
      using assms(3) by (meson in_set_takeD)
    moreover have "0 + length (take k gs) \<le> length q"
      using assms(2) by simp
    ultimately have "grade_all (take k gs) (started q)
        = Some \<lparr>studyQueue = q, currentCardIndex = 0 + length (take k gs),
                sessionStats = \<lparr>reviewed = 0 + length (take k gs), hard = 0\<rparr>\<rparr>"
      unfolding started_def by (rule grade_all_pass)
    then show ?thesis
      using that assms(2) by (simp add: isFinished_simp)
  qed
  show ?thesis
    using final early by (simp add: isFinished_simp)
qed

theorem all_pass_session_witness:
  "[item ''cat'', item ''dog''] \<noteq> [] \<and> length [GOOD, EASY] = length [item ''cat'', item ''dog'']
   \<and> HARD \<notin> set [GOOD, EASY]
   \<and> grade_all [GOOD, EASY] (started [item ''cat'', item ''dog''])
       = Some \<lparr>studyQueue = [item ''cat'', item ''dog''], currentCardIndex = 2,
               sessionStats = \<lparr>reviewed = 2, hard = 0\<rparr>\<rparr>"
  using all_pass_session [of "[item ''cat'', item ''dog'']" "[GOOD, EASY]"] by simp

text \<open>
  C4. From the same start, the first card graded HARD and then \<open>N\<close> times GOOD: the
  session ends after exactly \<open>N + 1\<close> grades with \<open>reviewed = N + 1\<close> and \<open>hard = 1\<close>;
  the queue is \<open>q\<close> with its first card appended once; the cards served are \<open>q\<close> and
  then the first card again, which is twice for the first card when the cards of \<open>q\<close>
  are distinct.
\<close>

theorem requeue_session:
  assumes "q \<noteq> []"
  shows "grade_all (HARD # replicate (length q) GOOD) (started q)
           = Some \<lparr>studyQueue = q @ [hd q], currentCardIndex = length q + 1,
                   sessionStats = \<lparr>reviewed = length q + 1, hard = 1\<rparr>\<rparr>
       \<and> isFinished \<lparr>studyQueue = q @ [hd q], currentCardIndex = length q + 1,
                   sessionStats = \<lparr>reviewed = length q + 1, hard = 1\<rparr>\<rparr>
       \<and> (\<forall>k \<le> length q. \<exists>s'. grade_all (take k (HARD # replicate (length q) GOOD)) (started q) = Some s'
              \<and> \<not> isFinished s')
       \<and> served (HARD # replicate (length q) GOOD) (started q) = q @ [hd q]
       \<and> (distinct q \<longrightarrow> count_list (served (HARD # replicate (length q) GOOD) (started q)) (hd q) = 2)"
proof -
  let ?n = "length q"
  let ?q' = "q @ [hd q]"
  have pos: "0 < ?n" using assms by simp
  have hd0: "q ! 0 = hd q" using assms by (simp add: hd_conv_nth)
  have first: "handleGrade HARD (started q)
      = Some \<lparr>studyQueue = ?q', currentCardIndex = Suc 0,
              sessionStats = \<lparr>reviewed = Suc 0, hard = Suc 0\<rparr>\<rparr>"
    unfolding started_def using handleGrade_hard [OF pos, of 0 0] hd0 by simp
  have run: "grade_all (replicate m GOOD)
        \<lparr>studyQueue = ?q', currentCardIndex = Suc 0,
         sessionStats = \<lparr>reviewed = Suc 0, hard = Suc 0\<rparr>\<rparr>
      = Some \<lparr>studyQueue = ?q', currentCardIndex = Suc 0 + m,
              sessionStats = \<lparr>reviewed = Suc 0 + m, hard = Suc 0\<rparr>\<rparr>"
    if "m \<le> ?n" for m
    using grade_all_pass [of "replicate m GOOD" "Suc 0" ?q' "Suc 0" "Suc 0"] that by simp
  have final: "grade_all (HARD # replicate ?n GOOD) (started q)
      = Some \<lparr>studyQueue = ?q', currentCardIndex = ?n + 1,
              sessionStats = \<lparr>reviewed = ?n + 1, hard = 1\<rparr>\<rparr>"
    using first run [of ?n] by simp
  have early: "\<exists>s'. grade_all (take k (HARD # replicate ?n GOOD)) (started q) = Some s'
              \<and> \<not> isFinished s'" if "k \<le> ?n" for k
  proof (cases k)
    case 0
    then show ?thesis using pos by (simp add: started_def isFinished_simp)
  next
    case (Suc m)
    then have m: "m \<le> ?n" "m < ?n" using that by simp_all
    have "take k (HARD # replicate ?n GOOD) = HARD # replicate m GOOD"
      using Suc m by (simp add: min_def)
    then show ?thesis
      using first run [OF m(1)] m(2) by (simp add: isFinished_simp)
  qed
  have "served (replicate ?n GOOD)
        \<lparr>studyQueue = ?q', currentCardIndex = Suc 0,
         sessionStats = \<lparr>reviewed = Suc 0, hard = Suc 0\<rparr>\<rparr>
      = take ?n (drop (Suc 0) ?q')"
    using served_pass [of "replicate ?n GOOD" "Suc 0" ?q' "Suc 0" "Suc 0"] by simp
  also have "\<dots> = tl q @ [hd q]"
    using assms by (cases q) simp_all
  finally have "served (HARD # replicate ?n GOOD) (started q) = hd q # tl q @ [hd q]"
    using first hd0 by (simp add: started_def)
  then have shown: "served (HARD # replicate ?n GOOD) (started q) = ?q'"
    using assms by simp
  have twice: "count_list ?q' (hd q) = 2" if "distinct q"
  proof -
    have "count_list q (hd q) = 1"
      using that assms by (cases q) (simp_all add: count_list_0_iff)
    then show ?thesis by simp
  qed
  show ?thesis
    using final early shown twice by (simp add: isFinished_simp)
qed

theorem requeue_session_witness:
  "[item ''cat'', item ''dog''] \<noteq> []
   \<and> grade_all [HARD, GOOD, GOOD] (started [item ''cat'', item ''dog''])
       = Some \<lparr>studyQueue = [item ''cat'', item ''dog'', item ''cat''], currentCardIndex = 3,
               sessionStats = \<lparr>reviewed = 3, hard = 1\<rparr>\<rparr>
   \<and> served [HARD, GOOD, GOOD] (started [item ''cat'', item ''dog''])
       = [item ''cat'', item ''dog'', item ''cat'']"
  using requeue_session [of "[item ''cat'', item ''dog'']"] by (simp add: numeral_2_eq_2)

section \<open>The tokenizer\<close>





























section \<open>The sentence context\<close>

lemma findSentence_example:
  "findSentence ''The cat sat on the mat. It was happy.'' ''It'' = ''It was happy.''
   \<and> findSentence ''The cat sat on the mat. It was happy.'' ''was'' = ''It was happy.''
   \<and> findSentence ''The cat sat on the mat. It was happy.'' ''happy'' = ''It was happy.''"
  by code_simp

lemma findSentence_terminated_text:
  assumes "takeWhile (\<lambda>c. \<not> is_terminal c) (rev fullText) = []"
    and "match_sentences fullText \<noteq> []"
  shows "findSentence fullText targetWord = claimed_context fullText targetWord"
  using assms
  by (simp add: findSentence_def claimed_context_def claimed_sentences_def sentences_of_def
           split: list.splits)

text \<open>
  C5. The claim and its example hold on a text that ends with a terminator
  (\<open>findSentence_example\<close>, \<open>findSentence_terminated_text\<close>). On the text
  \<open>Hello world. Bye now\<close> the pattern finds the one sentence \<open>Hello world.\<close>, and the token
  \<open>Bye\<close> of the unterminated rest gets the empty context, where the claim gives
  \<open>Bye now\<close>; the same rest alone, as a whole text, does get its context.
\<close>

theorem findSentence_unterminated_tail:
  "sentences_of ''Hello world. Bye now'' = [''Hello world.'']
   \<and> findSentence ''Hello world. Bye now'' ''Bye'' = []
   \<and> claimed_context ''Hello world. Bye now'' ''Bye'' = ''Bye now''
   \<and> findSentence ''Bye now'' ''Bye'' = ''Bye now''"
  by code_simp

section \<open>The lookup dispatcher\<close>

text \<open>
  C6. When the clicked text is not in the vocabulary map and the lookup call fails,
  \<open>handleWordClick\<close> ends with a selected item: the fallback item, whose word is the
  clicked text, whose definition is the message that the translation failed, and
  whose type is \<open>Unknown\<close>; no word is left loading.
\<close>

theorem lookup_failure_fallback:
  assumes "vocabMap vocab (cleanText_of clickedText) = None"
    and "lookupWordContext apiKey net clickedText text = Inl message"
  shows "selectedWord (handleWordClick vocab text apiKey net clickedText s)
           = Some (fallback_item clickedText (findSentence text clickedText))
       \<and> word (fallback_item clickedText (findSentence text clickedText)) = clickedText
       \<and> definition_v (fallback_item clickedText (findSentence text clickedText))
           = ''Unable to translate. Check connection.''
       \<and> definition_v (fallback_item clickedText (findSentence text clickedText)) \<noteq> []
       \<and> type (fallback_item clickedText (findSentence text clickedText)) = Some ''Unknown''
       \<and> loadingWord (handleWordClick vocab text apiKey net clickedText s) = None"
  using assms by (simp add: handleWordClick_def Let_def fallback_item_def)

theorem lookup_failure_fallback_witness:
  "vocabMap [] (cleanText_of ''foo'') = None
   \<and> lookupWordContext (Some ''k'') (\<lambda>k. Rejected ''Failed to fetch'') ''foo'' ''A foo is here.''
       = Inl ''Failed to fetch''
   \<and> selectedWord (handleWordClick [] ''A foo is here.'' (Some ''k'')
                     (\<lambda>k. Rejected ''Failed to fetch'') ''foo''
                     \<lparr>selectedWord = None, loadingWord = None, reportedUsage = []\<rparr>)
       = Some (fallback_item ''foo'' ''A foo is here.'')"
proof -
  let ?net = "\<lambda>k::nat. Rejected ''Failed to fetch'' :: vocabulary_item exchange"
  have a: "vocabMap [] (cleanText_of ''foo'') = None"
    by (simp add: vocabMap_def)
  have b: "lookupWordContext (Some ''k'') ?net ''foo'' ''A foo is here.'' = Inl ''Failed to fetch''"
    by code_simp
  have c: "findSentence ''A foo is here.'' ''foo'' = ''A foo is here.''"
    by code_simp
  from lookup_failure_fallback [OF a b] a b c show ?thesis by simp
qed

section \<open>Retries of the AI collaborator\<close>

lemma transient_retry: "transient x \<Longrightarrow> 0 < n \<Longrightarrow> attempt_once x n = Retry"
  by (auto simp: transient_def attempt_once_def try_block_def catch_block_def response_ok_def
           split: exchange.splits)

lemma transient_last: "transient x \<Longrightarrow> attempt_once x 0 = Throw (failure_message x)"
  by (auto simp: transient_def attempt_once_def try_block_def catch_block_def response_ok_def
                 failure_message_def
           split: exchange.splits)

lemma permanent_throw: "permanent x \<Longrightarrow> attempt_once x n = Throw (failure_message x)"
  by (auto simp: permanent_def attempt_once_def try_block_def catch_block_def
                 failure_message_def
           split: exchange.splits sum.splits if_splits)

lemma success_return:
  "response_ok status \<Longrightarrow> attempt_once (Responded status errMsg (Inr r)) n = Return r"
  by (simp add: attempt_once_def try_block_def)

lemma attempt_once_Retry_pos: "attempt_once x n = Retry \<Longrightarrow> 0 < n"
  by (auto simp: attempt_once_def try_block_def catch_block_def
           split: exchange.splits verdict.splits if_splits sum.splits)

lemma retried_Suc: "retried (Suc m) = Fetch # Wait 2000 # retried m"
  by (simp add: retried_def)

lemma attempt_shape: "\<exists>m \<le> n. fst (attempt net k n) = retried m @ [Fetch]"
proof (induction n arbitrary: k)
  case 0
  have "attempt_once (net k) 0 \<noteq> Retry"
    using attempt_once_Retry_pos by blast
  then have "fst (attempt net k 0) = retried 0 @ [Fetch]"
    by (cases "attempt_once (net k) 0") (simp_all add: retried_def)
  then show ?case by blast
next
  case (Suc n)
  show ?case
  proof (cases "attempt_once (net k) (Suc n)")
    case Retry
    from Suc.IH [of "k + 1"] obtain m where m: "m \<le> n"
      "fst (attempt net (k + 1) n) = retried m @ [Fetch]" by blast
    have "fst (attempt net k (Suc n)) = retried (Suc m) @ [Fetch]"
      using Retry m(2) by (simp add: split_beta retried_Suc)
    with m(1) show ?thesis by (meson Suc_le_mono)
  next
    case (Throw message)
    then have "fst (attempt net k (Suc n)) = retried 0 @ [Fetch]"
      by (simp add: retried_def)
    then show ?thesis by blast
  next
    case (Return r)
    then have "fst (attempt net k (Suc n)) = retried 0 @ [Fetch]"
      by (simp add: retried_def)
    then show ?thesis by blast
  qed
qed

lemma attempt_transient_prefix:
  "m \<le> n \<Longrightarrow> (\<forall>j < m. transient (net (k + j))) \<Longrightarrow>
   attempt net k n
     = (retried m @ fst (attempt net (k + m) (n - m)), snd (attempt net (k + m) (n - m)))"
proof (induction m arbitrary: k n)
  case 0
  then show ?case by (simp add: retried_def)
next
  case (Suc m)
  from Suc.prems obtain n' where n: "n = Suc n'" and mn: "m \<le> n'"
    by (cases n) auto
  have "transient (net k)" using Suc.prems(2) [rule_format, of 0] by simp
  then have retry: "attempt_once (net k) n = Retry"
    unfolding n by (rule transient_retry) simp
  have "\<forall>j < m. transient (net (k + 1 + j))"
    using Suc.prems(2) by (metis Suc_less_eq add_Suc_right add_Suc_shift plus_1_eq_Suc add.commute)
  from Suc.IH [OF mn this]
  have "attempt net (k + 1) n'
     = (retried m @ fst (attempt net (k + 1 + m) (n' - m)), snd (attempt net (k + 1 + m) (n' - m)))" .
  then show ?case
    using retry unfolding n
    by (simp add: retried_Suc attempt.simps [of net k "Suc n'"] del: attempt.simps)
qed

lemma attempt_single:
  "attempt_once (net k) n = Throw message \<Longrightarrow> attempt net k n = ([Fetch], Inl message)"
  "attempt_once (net k) n = Return r \<Longrightarrow> attempt net k n = ([Fetch], Inr r)"
  by simp_all

lemma callDeepSeek_key:
  "key \<noteq> [] \<Longrightarrow> callDeepSeek (Some key) net n
     = (fst (attempt net 0 n),
        case snd (attempt net 0 n) of Inl message \<Rightarrow> Inl (shown_message message) | Inr r \<Rightarrow> Inr r)"
  by (simp add: callDeepSeek_def shown_message_def split: prod.splits sum.splits)

text \<open>
  C8, as the claim states it, fails. A rejected \<^verbatim>\<open>fetch\<close> whose message is
  \<open>Load failed\<close> is a network failure and is not retried: one fetch. A response with
  status 400 whose error message mentions \<open>network\<close> is retried three times.
\<close>

theorem retry_policy_counterexample:
  "fst (callDeepSeek (Some ''k'') (\<lambda>k. Rejected ''Load failed'' :: unit exchange) default_retries)
     = [Fetch]
   \<and> fst (callDeepSeek (Some ''k'')
            (\<lambda>k. Responded 400 ''Model not found on this network'' (Inl []) :: unit exchange)
            default_retries)
     = [Fetch, Wait 2000, Fetch, Wait 2000, Fetch, Wait 2000, Fetch]"
  by code_simp

text \<open>
  C8, amended. With an API key, every call is one fetch and at most 3 more, each
  after a wait of 2000 ms. As long as the exchanges are transient (status 429 or 5xx,
  or a rejected \<^verbatim>\<open>fetch\<close> whose message mentions \<open>fetch\<close> or \<open>network\<close>) the call goes on
  to the next fetch: a success after \<open>m \<le> 3\<close> of them is returned; a failure after
  them that is neither such a status nor has such a message propagates at once; and
  after four transient exchanges the last error propagates.
\<close>

theorem callDeepSeek_retry_policy:
  assumes "key \<noteq> []"
  shows "(\<exists>m \<le> 3. fst (callDeepSeek (Some key) net default_retries) = retried m @ [Fetch])
       \<and> (\<forall>m \<le> 3. (\<forall>j < m. transient (net j)) \<longrightarrow>
            (permanent (net m) \<longrightarrow>
               callDeepSeek (Some key) net default_retries
                 = (retried m @ [Fetch], Inl (shown_message (failure_message (net m)))))
          \<and> (\<forall>status errMsg r. response_ok status \<and> net m = Responded status errMsg (Inr r) \<longrightarrow>
               callDeepSeek (Some key) net default_retries = (retried m @ [Fetch], Inr r)))
       \<and> ((\<forall>j \<le> 3. transient (net j)) \<longrightarrow>
            callDeepSeek (Some key) net default_retries
              = (retried 3 @ [Fetch], Inl (shown_message (failure_message (net 3)))))"
proof (intro conjI allI impI)
  show "\<exists>m \<le> 3. fst (callDeepSeek (Some key) net default_retries) = retried m @ [Fetch]"
    using attempt_shape [of 3 net 0] assms by (simp add: callDeepSeek_key default_retries_def)
next
  fix m :: nat
  assume m: "m \<le> 3" and tr: "\<forall>j < m. transient (net j)" and perm: "permanent (net m)"
  have pre: "attempt net 0 3 = (retried m @ fst (attempt net m (3 - m)), snd (attempt net m (3 - m)))"
    using attempt_transient_prefix [of m 3 net 0] m tr by simp
  have "attempt net m (3 - m) = ([Fetch], Inl (failure_message (net m)))"
    using permanent_throw [OF perm] by (rule attempt_single(1))
  with pre show "callDeepSeek (Some key) net default_retries
      = (retried m @ [Fetch], Inl (shown_message (failure_message (net m))))"
    using assms by (simp add: callDeepSeek_key default_retries_def)
next
  fix m :: nat and status errMsg and r :: "'a \<times> token_usage"
  assume m: "m \<le> 3" and tr: "\<forall>j < m. transient (net j)"
    and ok: "response_ok status \<and> net m = Responded status errMsg (Inr r)"
  have pre: "attempt net 0 3 = (retried m @ fst (attempt net m (3 - m)), snd (attempt net m (3 - m)))"
    using attempt_transient_prefix [of m 3 net 0] m tr by simp
  have "attempt_once (net m) (3 - m) = Return r"
    using ok by (simp add: success_return)
  then have "attempt net m (3 - m) = ([Fetch], Inr r)"
    by (rule attempt_single(2))
  with pre show "callDeepSeek (Some key) net default_retries = (retried m @ [Fetch], Inr r)"
    using assms by (simp add: callDeepSeek_key default_retries_def)
next
  assume tr: "\<forall>j \<le> 3. transient (net j)"
  have pre: "attempt net 0 3 = (retried 3 @ fst (attempt net 3 0), snd (attempt net 3 0))"
    using attempt_transient_prefix [of 3 3 net 0] tr by simp
  have "attempt_once (net 3) 0 = Throw (failure_message (net 3))"
    using tr by (simp add: transient_last)
  then have "attempt net 3 0 = ([Fetch], Inl (failure_message (net 3)))"
    by (rule attempt_single(1))
  with pre show "callDeepSeek (Some key) net default_retries
      = (retried 3 @ [Fetch], Inl (shown_message (failure_message (net 3))))"
    using assms by (simp add: callDeepSeek_key default_retries_def)
qed

theorem callDeepSeek_retry_policy_witness:
  "''k'' \<noteq> []
   \<and> transient (flaky_net 0) \<and> transient (flaky_net 1)
   \<and> response_ok 200
   \<and> flaky_net 2 = Responded 200 [] (Inr ((), usage0))
   \<and> callDeepSeek (Some ''k'') flaky_net default_retries
      = ([Fetch, Wait 2000, Fetch, Wait 2000, Fetch], Inr ((), usage0))"
proof -
  have key: "''k'' \<noteq> []" by simp
  have t0: "transient (flaky_net 0)" by code_simp
  have t1: "transient (flaky_net 1)" by code_simp
  have tr: "\<forall>j < 2. transient (flaky_net j)"
    using t0 t1 by (auto simp: less_2_cases_iff)
  have ok: "response_ok 200" by (simp add: response_ok_def)
  have n2: "flaky_net 2 = Responded 200 [] (Inr ((), usage0))" by (simp add: flaky_net_def)
  have le: "(2::nat) \<le> 3" by simp
  from callDeepSeek_retry_policy [OF key, of flaky_net]
  have "\<forall>m \<le> 3. (\<forall>j < m. transient (flaky_net j)) \<longrightarrow>
            (permanent (flaky_net m) \<longrightarrow>
               callDeepSeek (Some ''k'') flaky_net default_retries
                 = (retried m @ [Fetch], Inl (shown_message (failure_message (flaky_net m)))))
          \<and> (\<forall>status errMsg r. response_ok status \<and> flaky_net m = Responded status errMsg (Inr r) \<longrightarrow>
               callDeepSeek (Some ''k'') flaky_net default_retries = (retried m @ [Fetch], Inr r))"
    by blast
  with le tr ok n2 have "callDeepSeek (Some ''k'') flaky_net default_retries
      = (retried 2 @ [Fetch], Inr ((), usage0))"
    by blast
  moreover have "retried 2 @ [Fetch] = [Fetch, Wait 2000, Fetch, Wait 2000, Fetch]"
    by (simp add: retried_def numeral_2_eq_2)
  ultimately have "callDeepSeek (Some ''k'') flaky_net default_retries
      = ([Fetch, Wait 2000, Fetch, Wait 2000, Fetch], Inr ((), usage0))"
    by simp
  with key t0 t1 ok n2 show ?thesis by (intro conjI)
qed

section \<open>Analysis of a custom text\<close>

text \<open>
  C9. Whatever content the collaborator returns, the result of \<open>analyzeCustomText\<close>
  carries the argument as its text: when the call succeeds, the result is the
  content with the text field replaced by the argument.
\<close>

theorem analyze_keeps_text:
  "(\<forall>c u. snd (callDeepSeek apiKey net default_retries) = Inr (c, u) \<longrightarrow>
      analyzeCustomText apiKey net text
        = Inr \<lparr>title = title c, text_v = text, vocabulary = vocabulary c, usage = u\<rparr>)
   \<and> (\<forall>r. analyzeCustomText apiKey net text = Inr r \<longrightarrow> text_v r = text)"
  by (auto simp: analyzeCustomText_def split: sum.splits)

theorem analyze_keeps_text_witness:
  "snd (callDeepSeek (Some ''k'')
          (\<lambda>k. Responded 200 [] (Inr (\<lparr>title = ''T'', text_v = ''Something else.'', vocabulary = []\<rparr>, usage0)))
          default_retries)
     = Inr (\<lparr>title = ''T'', text_v = ''Something else.'', vocabulary = []\<rparr>, usage0)
   \<and> analyzeCustomText (Some ''k'')
        (\<lambda>k. Responded 200 [] (Inr (\<lparr>title = ''T'', text_v = ''Something else.'', vocabulary = []\<rparr>, usage0)))
        ''The cat sat.''
      = Inr \<lparr>title = ''T'', text_v = ''The cat sat.'', vocabulary = [], usage = usage0\<rparr>"
proof -
  let ?c = "\<lparr>title = ''T'', text_v = ''Something else.'', vocabulary = []\<rparr>"
  let ?net = "\<lambda>k::nat. Responded 200 [] (Inr (?c, usage0))"
  have call: "snd (callDeepSeek (Some ''k'') ?net default_retries) = Inr (?c, usage0)"
    by (simp add: callDeepSeek_def default_retries_def attempt_once_def try_block_def
                  response_ok_def)
  from analyze_keeps_text [of "Some ''k''" ?net "''The cat sat.''"] call
  have "analyzeCustomText (Some ''k'') ?net ''The cat sat.''
      = Inr \<lparr>title = title ?c, text_v = ''The cat sat.'', vocabulary = vocabulary ?c, usage = usage0\<rparr>"
    by blast
  with call show ?thesis by simp
qed

section \<open>The shuffle\<close>

lemma dyadic_add:
  "\<exists>K e. (of_int K1 / 2 ^ e1 :: rat) + of_int K2 / 2 ^ e2 = of_int K / 2 ^ e"
proof -
  have "(of_int K1 / 2 ^ e1 :: rat) + of_int K2 / 2 ^ e2
      = of_int (K1 * 2 ^ e2 + K2 * 2 ^ e1) / 2 ^ (e1 + e2)"
    by (simp add: power_add add_frac_eq)
  then show ?thesis by blast
qed

lemma dyadic_mult:
  "\<exists>K e. (of_int K1 / 2 ^ e1 :: rat) * (of_int K2 / 2 ^ e2) = of_int K / 2 ^ e"
proof -
  have "(of_int K1 / 2 ^ e1 :: rat) * (of_int K2 / 2 ^ e2) = of_int (K1 * K2) / 2 ^ (e1 + e2)"
    by (simp add: power_add)
  then show ?thesis by blast
qed

lemma outcome_prob_dyadic:
  "\<exists>K e. outcome_prob (of_int a / 2 ^ m) (of_int b / 2 ^ m) (of_int c / 2 ^ m) t q
           = of_int K / 2 ^ e"
proof (induction t)
  case (Sorted xs)
  have "(1::rat) = of_int 1 / 2 ^ 0" "(0::rat) = of_int 0 / 2 ^ 0" by simp_all
  then show ?case by (metis outcome_prob.simps(1))
next
  case (Compare neg zero pos)
  let ?P = "outcome_prob (of_int a / 2 ^ m) (of_int b / 2 ^ m) (of_int c / 2 ^ m)"
  from Compare obtain K1 e1 K2 e2 K3 e3 where
    p: "?P neg q = of_int K1 / 2 ^ e1" "?P zero q = of_int K2 / 2 ^ e2"
       "?P pos q = of_int K3 / 2 ^ e3"
    by blast
  obtain A ea where A: "(of_int a / 2 ^ m :: rat) * (of_int K1 / 2 ^ e1) = of_int A / 2 ^ ea"
    using dyadic_mult by blast
  obtain B eb where B: "(of_int b / 2 ^ m :: rat) * (of_int K2 / 2 ^ e2) = of_int B / 2 ^ eb"
    using dyadic_mult by blast
  obtain C ec where C: "(of_int c / 2 ^ m :: rat) * (of_int K3 / 2 ^ e3) = of_int C / 2 ^ ec"
    using dyadic_mult by blast
  obtain D ed where D: "(of_int A / 2 ^ ea :: rat) + of_int B / 2 ^ eb = of_int D / 2 ^ ed"
    using dyadic_add by blast
  obtain E ee where E: "(of_int D / 2 ^ ed :: rat) + of_int C / 2 ^ ec = of_int E / 2 ^ ee"
    using dyadic_add by blast
  have "?P (Compare neg zero pos) q = of_int E / 2 ^ ee"
    unfolding outcome_prob.simps p A B C D E ..
  then show ?case by blast
qed

lemma three_not_dvd_power_two: "\<not> (3::int) dvd 2 ^ e"
proof (induction e)
  case 0
  then show ?case by simp
next
  case (Suc e)
  define x :: int where "x = 2 ^ e"
  from Suc have "\<not> 3 dvd x" by (simp add: x_def)
  then have "\<not> 3 dvd 2 * x" by presburger
  then show ?case by (simp add: x_def)
qed

lemma dyadic_not_inverse_fact:
  assumes "3 \<le> n"
  shows "(of_int K / 2 ^ e :: rat) \<noteq> 1 / of_nat (fact n)"
proof
  assume eq: "(of_int K / 2 ^ e :: rat) = 1 / of_nat (fact n)"
  have "(of_int (K * int (fact n)) :: rat) = of_int (2 ^ e)"
    using eq by (simp add: field_simps)
  then have "K * int (fact n) = 2 ^ e"
    by (simp only: of_int_eq_iff)
  moreover have "(3::nat) dvd fact n"
    using assms by (simp add: dvd_fact)
  then have "(3::int) dvd int (fact n)"
    by (metis int_dvd_int_iff of_nat_numeral)
  ultimately have "(3::int) dvd 2 ^ e"
    by (metis dvd_mult)
  then show False
    by (simp add: three_not_dvd_power_two)
qed

text \<open>
  C2. The queue of \<open>startLearning\<close> is what the engine's sort returns under the
  random comparator. For a list of at least three cards, whatever the engine's sort,
  and whenever the three outcomes of a comparator call have probabilities with a
  power of two as denominator, no order of the cards comes out with the probability
  \<open>1 / N!\<close> of a uniform shuffle.
\<close>

theorem random_sort_not_uniform:
  "(filteredWords \<noteq> [] \<longrightarrow>
      studyQueue (learn (startLearning engine_sort rnd filteredWords s))
        = run_sort (engine_sort filteredWords) rnd 0)
   \<and> (3 \<le> length filteredWords \<longrightarrow>
        outcome_prob (of_int a / 2 ^ m) (of_int b / 2 ^ m) (of_int c / 2 ^ m)
            (engine_sort filteredWords) q
          \<noteq> 1 / of_nat (fact (length filteredWords)))"
proof (intro conjI impI)
  assume "filteredWords \<noteq> []"
  then show "studyQueue (learn (startLearning engine_sort rnd filteredWords s))
        = run_sort (engine_sort filteredWords) rnd 0"
    by (simp add: startLearning_def started_def)
next
  assume n: "3 \<le> length filteredWords"
  obtain K e where "outcome_prob (of_int a / 2 ^ m) (of_int b / 2 ^ m) (of_int c / 2 ^ m)
            (engine_sort filteredWords) q = of_int K / 2 ^ e"
    using outcome_prob_dyadic by blast
  then show "outcome_prob (of_int a / 2 ^ m) (of_int b / 2 ^ m) (of_int c / 2 ^ m)
            (engine_sort filteredWords) q \<noteq> 1 / of_nat (fact (length filteredWords))"
    using dyadic_not_inverse_fact [OF n] by simp
qed

theorem random_sort_not_uniform_witness:
  "[item ''a'', item ''b'', item ''c''] \<noteq> []
   \<and> 3 \<le> length [item ''a'', item ''b'', item ''c'']
   \<and> outcome_prob (1 / 2) 0 (1 / 2) (insertion_sort3 [item ''a'', item ''b'', item ''c''])
         [item ''a'', item ''b'', item ''c''] = 1 / 4
   \<and> outcome_prob (1 / 2) 0 (1 / 2) (insertion_sort3 [item ''a'', item ''b'', item ''c''])
         [item ''a'', item ''b'', item ''c''] \<noteq> 1 / 6"
proof -
  let ?q = "[item ''a'', item ''b'', item ''c'']"
  have ne: "?q \<noteq> []" and len: "3 \<le> length ?q" by simp_all
  have val: "outcome_prob (1 / 2) 0 (1 / 2) (insertion_sort3 ?q) ?q = 1 / 4"
    by code_simp
  have six: "(1::rat) / of_nat (fact (length ?q)) = 1 / 6"
    by (simp add: fact_numeral)
  have half: "(of_int 1 / 2 ^ 1 :: rat) = 1 / 2" and zero: "(of_int 0 / 2 ^ 1 :: rat) = 0"
    by simp_all
  note t = random_sort_not_uniform
    [where filteredWords = ?q and engine_sort = insertion_sort3 and a = 1 and b = 0 and c = 1
       and m = 1 and q = ?q]
  from t len have "outcome_prob (of_int 1 / 2 ^ 1) (of_int 0 / 2 ^ 1) (of_int 1 / 2 ^ 1)
          (insertion_sort3 ?q) ?q \<noteq> 1 / of_nat (fact (length ?q))"
    by (rule conjunct2 [THEN mp])
  then have "outcome_prob (1 / 2) 0 (1 / 2) (insertion_sort3 ?q) ?q \<noteq> 1 / 6"
    unfolding half zero six .
  with ne len val show ?thesis by (intro conjI)
qed

end
